theory Spec2Isabelle
  imports Complex_Main
begin

section \<open>Data model of the calculator engine\<close>

text \<open>
  The engine (calculator-engine.ts) is a lexer, a recursive-descent parser and a
  tree-walking evaluator. A JavaScript \<open>number\<close> is modelled by an exact rational: the
  arithmetic of the model is exact, so it agrees with the engine on every computation
  whose operands and results are exactly representable (all the integer examples
  below); rounding, infinities and NaN are outside the model.

  A thrown \<open>Error\<close> is a value carrying its message, and a function that can throw
  returns \<open>error + 'a\<close> with \<open>Inl\<close> for the throw.

  A string is a list of characters; each character stands for one code unit in the
  range 0..255.
\<close>

type_synonym number = rat

datatype error = Error (message: string)

text \<open>
  \<open>interface Token { type: TokenType; value: string | number }\<close> is a tagged union:
  the tag \<open>type\<close> selects the payload. The value of an operator token is the character
  the lexer read; the parentheses carry no information beyond their tag.
\<close>

datatype Token = NumberTok number | OperatorTok char | LparenTok | RparenTok

text \<open>
  \<open>interface ExpressionNode\<close>, tagged by \<open>type: 'binary' | 'number' | 'unary'\<close>. The
  operator stays a character, as in the source, so the evaluator's \<open>default\<close> branch
  (unknown operator) is a branch of the model. A unary node keeps its operand in
  \<open>right\<close>.
\<close>

datatype ExpressionNode =
    NumberNode number
  | UnaryNode char ExpressionNode
  | BinaryNode char ExpressionNode ExpressionNode

section \<open>Lexer\<close>

text \<open>The regular expression \<open>\s\<close> on code units below 256: TAB, LF, VT, FF, CR, SP, NBSP.\<close>

definition isWhitespace :: "char \<Rightarrow> bool" where
  "isWhitespace c =
     (c \<in> set [CHR 0x09, CHR 0x0A, CHR 0x0B, CHR 0x0C, CHR 0x0D, CHR '' '', CHR 0xA0])"

text \<open>\<open>\d\<close>\<close>

definition isDigit :: "char \<Rightarrow> bool" where
  "isDigit c = (c \<in> set ''0123456789'')"

text \<open>\<open>[\d.]\<close>\<close>

definition isDigitOrDot :: "char \<Rightarrow> bool" where
  "isDigitOrDot c = (isDigit c \<or> c = CHR ''.'')"

text \<open>\<open>[+\-*/]\<close>\<close>

definition isOperatorChar :: "char \<Rightarrow> bool" where
  "isOperatorChar c = (c \<in> set ''+-*/'')"

definition digitValue :: "char \<Rightarrow> nat" where
  "digitValue c = of_char c - 48"

definition digitsValue :: "string \<Rightarrow> nat" where
  "digitsValue ds = foldl (\<lambda>acc c. 10 * acc + digitValue c) 0 ds"

text \<open>
  The built-in \<open>parseFloat\<close> on a string of digits and dots, which is all the lexer
  passes to it: it reads the longest prefix \<open>digits [. digits]\<close> or \<open>. digits\<close> and
  ignores what follows; with no digit to read the result is NaN, here \<open>None\<close>.
\<close>

definition parseFloat :: "string \<Rightarrow> number option" where
  "parseFloat str =
     (let intPart = takeWhile isDigit str;
          rest = dropWhile isDigit str;
          fracPart = (case rest of
                        [] \<Rightarrow> []
                      | c # r \<Rightarrow> if c = CHR ''.'' then takeWhile isDigit r else [])
      in if intPart = [] \<and> fracPart = [] then None
         else Some (of_nat (digitsValue intPart)
                    + of_nat (digitsValue fracPart) / 10 ^ length fracPart))"

text \<open>
  The inner loop of \<open>tokenize\<close>:
  \<^verbatim>\<open>while (i < expression.length && /[\d.]/.test(expression[i])) { numStr += expression[i]; i++ }\<close>
  The model passes the unread rest of the expression, \<open>expression.slice(i)\<close>, instead of
  the index \<open>i\<close>, and returns \<open>numStr\<close> with the rest left unread.
\<close>

fun scanNumber :: "string \<Rightarrow> string \<Rightarrow> string \<times> string" where
  "scanNumber numStr [] = (numStr, [])"
| "scanNumber numStr (c # cs) =
     (if isDigitOrDot c then scanNumber (numStr @ [c]) cs else (numStr, c # cs))"

lemma scanNumber_rest_length: "length (snd (scanNumber numStr cs)) \<le> length cs"
  by (induction cs arbitrary: numStr) (auto intro: le_SucI)

text \<open>
  The outer loop of \<open>tokenize\<close>, on the unread rest and the tokens pushed so far. The
  branches are those of the source, in its order; a number token is pushed only when
  \<open>parseFloat\<close> did not return NaN.
\<close>

function tokenizeLoop :: "string \<Rightarrow> Token list \<Rightarrow> error + Token list" where
  "tokenizeLoop [] tokens = Inr tokens"
| "tokenizeLoop (c # cs) tokens =
     (if isWhitespace c then tokenizeLoop cs tokens
      else if isDigit c then
        (case parseFloat (fst (scanNumber [] (c # cs))) of
           Some num \<Rightarrow> tokenizeLoop (snd (scanNumber [] (c # cs))) (tokens @ [NumberTok num])
         | None \<Rightarrow> tokenizeLoop (snd (scanNumber [] (c # cs))) tokens)
      else if isOperatorChar c then tokenizeLoop cs (tokens @ [OperatorTok c])
      else if c = CHR ''('' then tokenizeLoop cs (tokens @ [LparenTok])
      else if c = CHR '')'' then tokenizeLoop cs (tokens @ [RparenTok])
      else Inl (Error (''Invalid character in expression: '' @ [c])))"
  by pat_completeness auto

termination
proof (relation "measure (\<lambda>(s, tokens). length s)", goal_cases)
  case (3 c cs tokens)
  have "length (snd (scanNumber [c] cs)) \<le> length cs"
    by (rule scanNumber_rest_length)
  with 3 show ?case by (simp add: isDigitOrDot_def)
next
  case (4 c cs tokens)
  have "length (snd (scanNumber [c] cs)) \<le> length cs"
    by (rule scanNumber_rest_length)
  with 4 show ?case by (simp add: isDigitOrDot_def)
qed simp_all

definition tokenize :: "string \<Rightarrow> error + Token list" where
  "tokenize expression = tokenizeLoop expression []"

section \<open>Parser\<close>

text \<open>
  \<open>class ExpressionParser\<close> holds the token array and the cursor \<open>current\<close>. The model
  passes the unread tokens, \<open>tokens.slice(current)\<close>: the head is \<open>tokens[current]\<close>,
  the empty list is \<open>current >= tokens.length\<close>, and \<open>current++\<close> drops the head. Each
  method returns the node it built and the tokens it left unread. The two \<open>while\<close>
  loops are \<open>parseAddSubLoop\<close> and \<open>parseMulDivLoop\<close>, with the variable \<open>left\<close> as
  argument.

  In \<open>parsePrimary\<close> the chain of tests on \<open>token.type\<close> is a case distinction on the
  tag; the message of the last \<open>throw\<close> names \<open>token.value\<close>, which at that point is an
  operator character other than minus and plus, or the closing parenthesis.
\<close>

type_synonym parseResult = "error + ExpressionNode \<times> Token list"

function parseAddSub :: "Token list \<Rightarrow> parseResult"
  and parseAddSubLoop :: "ExpressionNode \<Rightarrow> Token list \<Rightarrow> parseResult"
  and parseMulDiv :: "Token list \<Rightarrow> parseResult"
  and parseMulDivLoop :: "ExpressionNode \<Rightarrow> Token list \<Rightarrow> parseResult"
  and parsePrimary :: "Token list \<Rightarrow> parseResult"
where
  "parseAddSub ts =
     (case parseMulDiv ts of
        Inl e \<Rightarrow> Inl e
      | Inr (left, rest) \<Rightarrow> parseAddSubLoop left rest)"
| "parseAddSubLoop left [] = Inr (left, [])"
| "parseAddSubLoop left (token # ts) =
     (case token of
        OperatorTok c \<Rightarrow>
          if c = CHR ''+'' \<or> c = CHR ''-'' then
            (case parseMulDiv ts of
               Inl e \<Rightarrow> Inl e
             | Inr (right, rest) \<Rightarrow> parseAddSubLoop (BinaryNode c left right) rest)
          else Inr (left, token # ts)
      | _ \<Rightarrow> Inr (left, token # ts))"
| "parseMulDiv ts =
     (case parsePrimary ts of
        Inl e \<Rightarrow> Inl e
      | Inr (left, rest) \<Rightarrow> parseMulDivLoop left rest)"
| "parseMulDivLoop left [] = Inr (left, [])"
| "parseMulDivLoop left (token # ts) =
     (case token of
        OperatorTok c \<Rightarrow>
          if c = CHR ''*'' \<or> c = CHR ''/'' then
            (case parsePrimary ts of
               Inl e \<Rightarrow> Inl e
             | Inr (right, rest) \<Rightarrow> parseMulDivLoop (BinaryNode c left right) rest)
          else Inr (left, token # ts)
      | _ \<Rightarrow> Inr (left, token # ts))"
| "parsePrimary [] = Inl (Error ''Unexpected end of expression'')"
| "parsePrimary (token # ts) =
     (case token of
        LparenTok \<Rightarrow>
          (case parseAddSub ts of
             Inl e \<Rightarrow> Inl e
           | Inr (expr, rest) \<Rightarrow>
               (case rest of
                  [] \<Rightarrow> Inl (Error ''Missing closing parenthesis'')
                | t # rest' \<Rightarrow>
                    if t \<noteq> RparenTok then Inl (Error ''Missing closing parenthesis'')
                    else Inr (expr, rest')))
      | OperatorTok c \<Rightarrow>
          if c = CHR ''-'' then
            (case parsePrimary ts of
               Inl e \<Rightarrow> Inl e
             | Inr (operand, rest) \<Rightarrow> Inr (UnaryNode (CHR ''-'') operand, rest))
          else if c = CHR ''+'' then parsePrimary ts
          else Inl (Error (''Unexpected token: '' @ [c]))
      | NumberTok v \<Rightarrow> Inr (NumberNode v, ts)
      | RparenTok \<Rightarrow> Inl (Error ''Unexpected token: )''))"
  by pat_completeness auto

text \<open>
  Termination: no method returns more unread tokens than it was given. This is proved
  on the domain of the functions first, and then bounds the nested calls.
\<close>

lemma parse_rest_length:
  "parseAddSub_parseAddSubLoop_parseMulDiv_parseMulDivLoop_parsePrimary_dom (Inl (Inl ts1)) \<Longrightarrow>
     (\<forall>n r. parseAddSub ts1 = Inr (n, r) \<longrightarrow> length r \<le> length ts1)"
  "parseAddSub_parseAddSubLoop_parseMulDiv_parseMulDivLoop_parsePrimary_dom (Inl (Inr (l2, ts2))) \<Longrightarrow>
     (\<forall>n r. parseAddSubLoop l2 ts2 = Inr (n, r) \<longrightarrow> length r \<le> length ts2)"
  "parseAddSub_parseAddSubLoop_parseMulDiv_parseMulDivLoop_parsePrimary_dom (Inr (Inl ts3)) \<Longrightarrow>
     (\<forall>n r. parseMulDiv ts3 = Inr (n, r) \<longrightarrow> length r \<le> length ts3)"
  "parseAddSub_parseAddSubLoop_parseMulDiv_parseMulDivLoop_parsePrimary_dom (Inr (Inr (Inl (l4, ts4)))) \<Longrightarrow>
     (\<forall>n r. parseMulDivLoop l4 ts4 = Inr (n, r) \<longrightarrow> length r \<le> length ts4)"
  "parseAddSub_parseAddSubLoop_parseMulDiv_parseMulDivLoop_parsePrimary_dom (Inr (Inr (Inr ts5))) \<Longrightarrow>
     (\<forall>n r. parsePrimary ts5 = Inr (n, r) \<longrightarrow> length r \<le> length ts5)"
proof (induction ts1 and l2 ts2 and ts3 and l4 ts4 and ts5
    rule: parseAddSub_parseAddSubLoop_parseMulDiv_parseMulDivLoop_parsePrimary.pinduct)
  case (1 ts)
  then show ?case
    by (fastforce simp: parseAddSub.psimps split: sum.splits prod.splits)
next
  case (2 left)
  then show ?case by (simp add: parseAddSubLoop.psimps)
next
  case (3 left token ts)
  then show ?case
    by (fastforce simp: parseAddSubLoop.psimps
        split: sum.splits prod.splits Token.splits if_splits)
next
  case (4 ts)
  then show ?case
    by (fastforce simp: parseMulDiv.psimps split: sum.splits prod.splits)
next
  case (5 left)
  then show ?case by (simp add: parseMulDivLoop.psimps)
next
  case (6 left token ts)
  then show ?case
    by (fastforce simp: parseMulDivLoop.psimps
        split: sum.splits prod.splits Token.splits if_splits)
next
  case 7
  then show ?case by (simp add: parsePrimary.psimps)
next
  case (8 token ts)
  then show ?case
    by (fastforce simp: parsePrimary.psimps
        split: sum.splits prod.splits Token.splits if_splits list.splits)
qed

termination parseAddSub
proof (relation "measure (\<lambda>x. case x of
          Inl (Inl ts) \<Rightarrow> 3 * length ts + 2
        | Inl (Inr (l, ts)) \<Rightarrow> 3 * length ts
        | Inr (Inl ts) \<Rightarrow> 3 * length ts + 1
        | Inr (Inr (Inl (l, ts))) \<Rightarrow> 3 * length ts
        | Inr (Inr (Inr ts)) \<Rightarrow> 3 * length ts)", goal_cases)
  case 3
  then show ?case using parse_rest_length(3) by fastforce
next
  case 5
  then show ?case using parse_rest_length(3) by fastforce
next
  case 7
  then show ?case using parse_rest_length(5) by fastforce
next
  case 9
  then show ?case using parse_rest_length(5) by fastforce
qed simp_all

text \<open>
  \<open>parse()\<close> returns the node of \<open>parseAddSub\<close>; the tokens left unread are not looked at.
\<close>

definition parse :: "Token list \<Rightarrow> error + ExpressionNode" where
  "parse tokens = (case parseAddSub tokens of Inl e \<Rightarrow> Inl e | Inr (node, rest) \<Rightarrow> Inr node)"

section \<open>Evaluator\<close>

fun evaluateNode :: "ExpressionNode \<Rightarrow> error + number" where
  "evaluateNode (NumberNode v) = Inr v"
| "evaluateNode (UnaryNode operator right) =
     (case evaluateNode right of
        Inl e \<Rightarrow> Inl e
      | Inr operand \<Rightarrow> if operator = CHR ''-'' then Inr (- operand) else Inr operand)"
| "evaluateNode (BinaryNode operator l r) =
     (case evaluateNode l of
        Inl e \<Rightarrow> Inl e
      | Inr left \<Rightarrow>
          (case evaluateNode r of
             Inl e \<Rightarrow> Inl e
           | Inr right \<Rightarrow>
               if operator = CHR ''+'' then Inr (left + right)
               else if operator = CHR ''-'' then Inr (left - right)
               else if operator = CHR ''*'' then Inr (left * right)
               else if operator = CHR ''/'' then
                 (if right = 0 then Inl (Error ''Division by zero'') else Inr (left / right))
               else Inl (Error (''Unknown operator: '' @ [operator]))))"

section \<open>Entry points\<close>

text \<open>\<open>!expression || !expression.trim()\<close>: the string is empty or all whitespace.\<close>

definition trim :: "string \<Rightarrow> string" where
  "trim s = rev (dropWhile isWhitespace (rev (dropWhile isWhitespace s)))"

definition isBlank :: "string \<Rightarrow> bool" where
  "isBlank expression = (expression = [] \<or> trim expression = [])"

text \<open>The body of the \<open>try\<close> block of \<open>evaluate\<close>.\<close>

definition evaluateBody :: "string \<Rightarrow> error + number" where
  "evaluateBody expression =
     (case tokenize expression of
        Inl e \<Rightarrow> Inl e
      | Inr tokens \<Rightarrow>
          if tokens = [] then Inr 0
          else (case parse tokens of
                  Inl e \<Rightarrow> Inl e
                | Inr ast \<Rightarrow> evaluateNode ast))"

text \<open>\<open>evaluate\<close>: the \<open>catch\<close> rethrows every error with the prefix \<open>Calculation error: \<close>.\<close>

definition evaluate :: "string \<Rightarrow> error + number" where
  "evaluate expression =
     (if isBlank expression then Inr 0
      else (case evaluateBody expression of
              Inl e \<Rightarrow> Inl (Error (''Calculation error: '' @ message e))
            | Inr v \<Rightarrow> Inr v))"

text \<open>
  The \<open>for\<close> loop of \<open>isValidExpression\<close> over the tokens, with the counter
  \<open>parenCount\<close>; \<open>None\<close> is the \<open>return false\<close> inside the loop, \<open>Some n\<close> the counter
  after the last token.
\<close>

fun parenLoop :: "Token list \<Rightarrow> int \<Rightarrow> int option" where
  "parenLoop [] parenCount = Some parenCount"
| "parenLoop (token # ts) parenCount =
     (if token = LparenTok then parenLoop ts (parenCount + 1)
      else if token = RparenTok then
        (if parenCount - 1 < 0 then None else parenLoop ts (parenCount - 1))
      else parenLoop ts parenCount)"

text \<open>The body of the \<open>try\<close> block of \<open>isValidExpression\<close>.\<close>

definition isValidBody :: "string \<Rightarrow> error + bool" where
  "isValidBody expression =
     (case tokenize expression of
        Inl e \<Rightarrow> Inl e
      | Inr tokens \<Rightarrow>
          if tokens = [] then Inr True
          else (case parenLoop tokens 0 of
                  None \<Rightarrow> Inr False
                | Some parenCount \<Rightarrow>
                    if parenCount \<noteq> 0 then Inr False
                    else (case parse tokens of
                            Inl e \<Rightarrow> Inl e
                          | Inr ast \<Rightarrow> Inr True)))"

text \<open>\<open>isValidExpression\<close>: the \<open>catch\<close> turns every error into \<open>false\<close>.\<close>

definition isValidExpression :: "string \<Rightarrow> error + bool" where
  "isValidExpression expression =
     (if isBlank expression then Inr True
      else (case isValidBody expression of
              Inl e \<Rightarrow> Inr False
            | Inr b \<Rightarrow> Inr b))"

section \<open>Reference definitions\<close>

text \<open>
  The definitions of this section are not part of the engine: they state, in the
  words of its specification, what the engine's functions are compared with.
\<close>

subsection \<open>Characters the lexer rejects\<close>

text \<open>
  A character \<open>c\<close> read after the characters \<open>pre\<close> is invalid when it is not
  whitespace, not a digit, not one of \<open>+ - * /\<close> and not a parenthesis, unless it is
  a dot that directly follows a digit or a dot. \<open>firstInvalid pre s\<close> is the first
  invalid character of \<open>s\<close>, when \<open>s\<close> is read after \<open>pre\<close>.
\<close>

definition invalidAt :: "string \<Rightarrow> char \<Rightarrow> bool" where
  "invalidAt pre c =
     (\<not> isWhitespace c \<and> \<not> isDigit c \<and> \<not> isOperatorChar c
      \<and> c \<noteq> CHR ''('' \<and> c \<noteq> CHR '')''
      \<and> \<not> (c = CHR ''.'' \<and> pre \<noteq> [] \<and> isDigitOrDot (last pre)))"

fun firstInvalid :: "string \<Rightarrow> string \<Rightarrow> char option" where
  "firstInvalid pre [] = None"
| "firstInvalid pre (c # cs) = (if invalidAt pre c then Some c else firstInvalid (pre @ [c]) cs)"

subsection \<open>Parenthesis depth\<close>

text \<open>
  The parenthesis depth of a token sequence: the number of its opening parentheses
  minus the number of its closing ones. The running counter of the validity check,
  after \<open>n\<close> tokens, is the depth of the first \<open>n\<close> tokens.
\<close>

definition parenDepth :: "Token list \<Rightarrow> int" where
  "parenDepth ts = int (count_list ts LparenTok) - int (count_list ts RparenTok)"

subsection \<open>Trees of the four operators\<close>

text \<open>
  The field \<open>operator\<close> of a node has the type \<open>'+' | '-' | '*' | '/'\<close>:
  \<open>knownOperators\<close> says that every binary node of a tree carries one of the four.
  \<open>subnodes\<close> are the nodes of a tree, the tree itself included.
\<close>

fun knownOperators :: "ExpressionNode \<Rightarrow> bool" where
  "knownOperators (NumberNode v) = True"
| "knownOperators (UnaryNode operator right) = knownOperators right"
| "knownOperators (BinaryNode operator l r) =
     (operator \<in> set ''+-*/'' \<and> knownOperators l \<and> knownOperators r)"

fun subnodes :: "ExpressionNode \<Rightarrow> ExpressionNode set" where
  "subnodes (NumberNode v) = {NumberNode v}"
| "subnodes (UnaryNode operator right) = insert (UnaryNode operator right) (subnodes right)"
| "subnodes (BinaryNode operator l r) =
     insert (BinaryNode operator l r) (subnodes l \<union> subnodes r)"

subsection \<open>The grammar of arithmetic expressions\<close>

text \<open>
  Standard arithmetic notation, as the specification describes it, in three tiers:
  \<^verbatim>\<open>
  additive       ::= multiplicative | additive (+|-) multiplicative
  multiplicative ::= primary | multiplicative (*|/) primary
  primary        ::= number | ( additive ) | - primary | + primary
  \<close>
  The left operand of a binary construct is of the same tier (operators of one tier
  group from the left), and the operands of \<open>+\<close> and \<open>-\<close> are products and quotients
  (multiplication and division bind tighter).

  \<open>tokensA\<close> writes an expression as tokens; \<open>treeA\<close> is the tree that reading it
  by the grammar gives, with a unary plus and a pair of parentheses leaving no node;
  \<open>valueA\<close> is its value in ordinary arithmetic, \<open>None\<close> when a divisor is zero.
\<close>

datatype AdditiveOp = Add | Sub
datatype MultiplicativeOp = Mul | Div

fun addChar :: "AdditiveOp \<Rightarrow> char" where
  "addChar Add = CHR ''+''"
| "addChar Sub = CHR ''-''"

fun mulChar :: "MultiplicativeOp \<Rightarrow> char" where
  "mulChar Mul = CHR ''*''"
| "mulChar Div = CHR ''/''"

datatype Primary = PNumber number | PGroup Additive | PNegate Primary | PPlus Primary
  and Multiplicative = MPrimary Primary | MBinary Multiplicative MultiplicativeOp Primary
  and Additive = AMultiplicative Multiplicative | ABinary Additive AdditiveOp Multiplicative

primrec tokensP :: "Primary \<Rightarrow> Token list"
  and tokensM :: "Multiplicative \<Rightarrow> Token list"
  and tokensA :: "Additive \<Rightarrow> Token list"
where
  "tokensP (PNumber v) = [NumberTok v]"
| "tokensP (PGroup a) = LparenTok # tokensA a @ [RparenTok]"
| "tokensP (PNegate p) = OperatorTok (CHR ''-'') # tokensP p"
| "tokensP (PPlus p) = OperatorTok (CHR ''+'') # tokensP p"
| "tokensM (MPrimary p) = tokensP p"
| "tokensM (MBinary m operator p) = tokensM m @ OperatorTok (mulChar operator) # tokensP p"
| "tokensA (AMultiplicative m) = tokensM m"
| "tokensA (ABinary a operator m) = tokensA a @ OperatorTok (addChar operator) # tokensM m"

primrec treeP :: "Primary \<Rightarrow> ExpressionNode"
  and treeM :: "Multiplicative \<Rightarrow> ExpressionNode"
  and treeA :: "Additive \<Rightarrow> ExpressionNode"
where
  "treeP (PNumber v) = NumberNode v"
| "treeP (PGroup a) = treeA a"
| "treeP (PNegate p) = UnaryNode (CHR ''-'') (treeP p)"
| "treeP (PPlus p) = treeP p"
| "treeM (MPrimary p) = treeP p"
| "treeM (MBinary m operator p) = BinaryNode (mulChar operator) (treeM m) (treeP p)"
| "treeA (AMultiplicative m) = treeM m"
| "treeA (ABinary a operator m) = BinaryNode (addChar operator) (treeA a) (treeM m)"


text \<open>
  The next unread token is an operator among the characters \<open>ops\<close>.
\<close>

definition startsWithOperator :: "string \<Rightarrow> Token list \<Rightarrow> bool" where
  "startsWithOperator ops ts = (case ts of OperatorTok c # rest \<Rightarrow> c \<in> set ops | _ \<Rightarrow> False)"

section \<open>Running the engine on concrete inputs\<close>

text \<open>
  The definitions the simplifier unfolds to run the lexer and the entry points.
\<close>

lemmas lexer_defs = tokenize_def isWhitespace_def isDigit_def isDigitOrDot_def
  isOperatorChar_def parseFloat_def digitsValue_def digitValue_def

lemmas entry_defs = evaluate_def evaluateBody_def isBlank_def trim_def parse_def
  isValidExpression_def isValidBody_def

section \<open>The lexer\<close>

subsection \<open>Blank input\<close>

lemma trim_empty_iff: "trim s = [] \<longleftrightarrow> (\<forall>c \<in> set s. isWhitespace c)"
proof
  assume "trim s = []"
  then have all: "\<forall>c \<in> set (dropWhile isWhitespace s). isWhitespace c"
    by (simp add: trim_def dropWhile_eq_Nil_conv)
  have "dropWhile isWhitespace s = []"
  proof (rule ccontr)
    assume ne: "dropWhile isWhitespace s \<noteq> []"
    then have "\<not> isWhitespace (hd (dropWhile isWhitespace s))"
      by (rule hd_dropWhile)
    moreover have "hd (dropWhile isWhitespace s) \<in> set (dropWhile isWhitespace s)"
      using ne by simp
    ultimately show False using all by blast
  qed
  then show "\<forall>c \<in> set s. isWhitespace c"
    by (simp add: dropWhile_eq_Nil_conv)
next
  assume "\<forall>c \<in> set s. isWhitespace c"
  then have "dropWhile isWhitespace s = []"
    by (simp add: dropWhile_eq_Nil_conv)
  then show "trim s = []"
    by (simp only: trim_def rev.simps dropWhile.simps)
qed

lemma isBlank_iff: "isBlank s \<longleftrightarrow> (\<forall>c \<in> set s. isWhitespace c)"
  by (auto simp: isBlank_def trim_empty_iff)

lemma tokenizeLoop_blank:
  "\<forall>c \<in> set s. isWhitespace c \<Longrightarrow> tokenizeLoop s tokens = Inr tokens"
  by (induction s) simp_all

lemma tokenize_blank: "isBlank s \<Longrightarrow> tokenize s = Inr []"
  by (simp add: isBlank_iff tokenize_def tokenizeLoop_blank)

subsection \<open>The lexer fails at the first invalid character\<close>

lemma scanNumber_eq:
  "scanNumber numStr cs = (numStr @ takeWhile isDigitOrDot cs, dropWhile isDigitOrDot cs)"
  by (induction cs arbitrary: numStr) auto

lemma firstInvalid_run:
  "pre \<noteq> [] \<Longrightarrow> isDigitOrDot (last pre) \<Longrightarrow>
   firstInvalid pre cs = firstInvalid (pre @ takeWhile isDigitOrDot cs) (dropWhile isDigitOrDot cs)"
proof (induction cs arbitrary: pre)
  case Nil
  then show ?case by simp
next
  case (Cons c cs)
  show ?case
  proof (cases "isDigitOrDot c")
    case True
    then have "\<not> invalidAt pre c"
      using Cons.prems by (auto simp: invalidAt_def isDigitOrDot_def)
    moreover have "firstInvalid (pre @ [c]) cs =
        firstInvalid ((pre @ [c]) @ takeWhile isDigitOrDot cs) (dropWhile isDigitOrDot cs)"
      using True by (intro Cons.IH) auto
    ultimately show ?thesis using True by simp
  next
    case False
    then show ?thesis by simp
  qed
qed

lemma tokenizeLoop_firstInvalid:
  "pre = [] \<or> \<not> isDigitOrDot (last pre) \<or> s = [] \<or> \<not> isDigitOrDot (hd s) \<Longrightarrow>
   (case firstInvalid pre s of
      Some c \<Rightarrow> tokenizeLoop s tokens = Inl (Error (''Invalid character in expression: '' @ [c]))
    | None \<Rightarrow> (\<exists>ts. tokenizeLoop s tokens = Inr ts))"
proof (induction s tokens arbitrary: pre rule: tokenizeLoop.induct)
  case (1 tokens)
  then show ?case by simp
next
  case (2 c cs tokens)
  show ?case
  proof (cases "isWhitespace c")
    case True
    then have ni: "\<not> invalidAt pre c" by (simp add: invalidAt_def)
    have ws: "\<not> isDigitOrDot c"
      using True by (auto simp: isWhitespace_def isDigitOrDot_def isDigit_def)
    have "case firstInvalid (pre @ [c]) cs of
            Some c' \<Rightarrow> tokenizeLoop cs tokens = Inl (Error (''Invalid character in expression: '' @ [c']))
          | None \<Rightarrow> (\<exists>ts. tokenizeLoop cs tokens = Inr ts)"
      using True ws by (intro "2.IH"(1)) auto
    then show ?thesis using True ni by (simp split: option.splits)
  next
    case notws: False
    show ?thesis
    proof (cases "isDigit c")
      case True
      then have ni: "\<not> invalidAt pre c" by (simp add: invalidAt_def)
      have dd: "isDigitOrDot c" using True by (simp add: isDigitOrDot_def)
      let ?run = "takeWhile isDigitOrDot cs"
      let ?rest = "dropWhile isDigitOrDot cs"
      have sn: "scanNumber [] (c # cs) = (c # ?run, ?rest)"
        using dd by (simp add: scanNumber_eq)
      have fi: "firstInvalid (pre @ [c]) cs = firstInvalid ((pre @ [c]) @ ?run) ?rest"
        using dd by (intro firstInvalid_run) auto
      have bnd: "(pre @ [c]) @ ?run = [] \<or> \<not> isDigitOrDot (last ((pre @ [c]) @ ?run))
                 \<or> snd (scanNumber [] (c # cs)) = []
                 \<or> \<not> isDigitOrDot (hd (snd (scanNumber [] (c # cs))))"
        using hd_dropWhile[of isDigitOrDot cs] sn by auto
      show ?thesis
      proof (cases "parseFloat (fst (scanNumber [] (c # cs)))")
        case None
        have "case firstInvalid ((pre @ [c]) @ ?run) (snd (scanNumber [] (c # cs))) of
            Some c' \<Rightarrow> tokenizeLoop (snd (scanNumber [] (c # cs))) tokens
                        = Inl (Error (''Invalid character in expression: '' @ [c']))
          | None \<Rightarrow> (\<exists>ts. tokenizeLoop (snd (scanNumber [] (c # cs))) tokens = Inr ts)"
          by (rule "2.IH"(2)[OF notws True None bnd])
        then show ?thesis
          using notws True ni None fi sn by (simp split: option.splits)
      next
        case (Some num)
        have "case firstInvalid ((pre @ [c]) @ ?run) (snd (scanNumber [] (c # cs))) of
            Some c' \<Rightarrow> tokenizeLoop (snd (scanNumber [] (c # cs))) (tokens @ [NumberTok num])
                        = Inl (Error (''Invalid character in expression: '' @ [c']))
          | None \<Rightarrow> (\<exists>ts. tokenizeLoop (snd (scanNumber [] (c # cs))) (tokens @ [NumberTok num]) = Inr ts)"
          by (rule "2.IH"(3)[OF notws True Some bnd])
        then show ?thesis
          using notws True ni Some fi sn by (simp split: option.splits)
      qed
    next
      case notdigit: False
      show ?thesis
      proof (cases "isOperatorChar c \<or> c = CHR ''('' \<or> c = CHR '')''")
        case True
        then have ni: "\<not> invalidAt pre c" by (auto simp: invalidAt_def)
        have nd: "\<not> isDigitOrDot c"
          using True notdigit by (auto simp: isOperatorChar_def isDigitOrDot_def)
        have b: "pre @ [c] = [] \<or> \<not> isDigitOrDot (last (pre @ [c])) \<or> cs = [] \<or> \<not> isDigitOrDot (hd cs)"
          using nd by simp
        show ?thesis
          using True notws notdigit ni "2.IH"(4)[OF notws notdigit _ b]
            "2.IH"(5)[OF notws notdigit _ _ b] "2.IH"(6)[OF notws notdigit _ _ _ b]
          by (auto split: option.splits)
      next
        case False
        have "\<not> (c = CHR ''.'' \<and> pre \<noteq> [] \<and> isDigitOrDot (last pre))"
          using "2.prems" by (auto simp: isDigitOrDot_def)
        then have "invalidAt pre c"
          using False notws notdigit by (simp add: invalidAt_def)
        then show ?thesis using False notws notdigit by simp
      qed
    qed
  qed
qed

lemma firstInvalid_None_iff:
  "firstInvalid pre s = None \<longleftrightarrow> (\<forall>p c q. s = p @ c # q \<longrightarrow> \<not> invalidAt (pre @ p) c)"
proof (induction s arbitrary: pre)
  case Nil
  then show ?case by simp
next
  case (Cons a s)
  show ?case
  proof
    assume none: "firstInvalid pre (a # s) = None"
    then have a: "\<not> invalidAt pre a" and rest: "firstInvalid (pre @ [a]) s = None"
      by (auto split: if_splits)
    show "\<forall>p c q. a # s = p @ c # q \<longrightarrow> \<not> invalidAt (pre @ p) c"
    proof (intro allI impI)
      fix p c q
      assume eq: "a # s = p @ c # q"
      show "\<not> invalidAt (pre @ p) c"
      proof (cases p)
        case Nil
        then show ?thesis using eq a by simp
      next
        case (Cons b p')
        then have "s = p' @ c # q" and "b = a" using eq by simp_all
        then show ?thesis using rest Cons Cons.IH[of "pre @ [a]"] by simp
      qed
    qed
  next
    assume all: "\<forall>p c q. a # s = p @ c # q \<longrightarrow> \<not> invalidAt (pre @ p) c"
    then have a: "\<not> invalidAt pre a" by (metis append_Nil append_Nil2)
    have "\<forall>p c q. s = p @ c # q \<longrightarrow> \<not> invalidAt ((pre @ [a]) @ p) c"
    proof (intro allI impI)
      fix p c q
      assume "s = p @ c # q"
      then have "a # s = (a # p) @ c # q" by simp
      then have "\<not> invalidAt (pre @ a # p) c" using all by blast
      then show "\<not> invalidAt ((pre @ [a]) @ p) c" by simp
    qed
    then have "firstInvalid (pre @ [a]) s = None" using Cons.IH by blast
    then show "firstInvalid pre (a # s) = None" using a by simp
  qed
qed

lemma firstInvalid_Some:
  "firstInvalid pre s = Some c \<Longrightarrow>
   \<exists>p q. s = p @ c # q \<and> invalidAt (pre @ p) c \<and> firstInvalid pre p = None"
proof (induction s arbitrary: pre)
  case Nil
  then show ?case by simp
next
  case (Cons a s)
  show ?case
  proof (cases "invalidAt pre a")
    case True
    then have "c = a" using Cons.prems by simp
    then have "a # s = [] @ c # s \<and> invalidAt (pre @ []) c \<and> firstInvalid pre [] = None"
      using True by simp
    then show ?thesis by blast
  next
    case False
    then have "firstInvalid (pre @ [a]) s = Some c" using Cons.prems by simp
    then obtain p q where pq: "s = p @ c # q" "invalidAt ((pre @ [a]) @ p) c"
        "firstInvalid (pre @ [a]) p = None"
      using Cons.IH by blast
    then have "a # s = (a # p) @ c # q \<and> invalidAt (pre @ a # p) c
               \<and> firstInvalid pre (a # p) = None"
      using False by simp
    then show ?thesis by blast
  qed
qed

lemma tokenize_fails_first:
  assumes "tokenize s = Inl e"
  shows "\<exists>p c q. s = p @ c # q \<and> invalidAt p c
           \<and> (\<forall>p' c' q'. p = p' @ c' # q' \<longrightarrow> \<not> invalidAt p' c')
           \<and> e = Error (''Invalid character in expression: '' @ [c])"
proof -
  have spec: "case firstInvalid [] s of
      Some c \<Rightarrow> tokenizeLoop s [] = Inl (Error (''Invalid character in expression: '' @ [c]))
    | None \<Rightarrow> (\<exists>ts. tokenizeLoop s [] = Inr ts)"
    by (rule tokenizeLoop_firstInvalid) simp
  show ?thesis
  proof (cases "firstInvalid [] s")
    case None
    then show ?thesis using spec assms by (auto simp: tokenize_def)
  next
    case (Some c)
    then have e: "e = Error (''Invalid character in expression: '' @ [c])"
      using spec assms by (simp add: tokenize_def)
    from firstInvalid_Some[OF Some] obtain p q where
      pq: "s = p @ c # q" "invalidAt p c" "firstInvalid [] p = None"
      by auto
    have "\<forall>p' c' q'. p = p' @ c' # q' \<longrightarrow> \<not> invalidAt p' c'"
      using pq(3) firstInvalid_None_iff[of "[]" p] by simp
    then show ?thesis using pq e by blast
  qed
qed

lemma tokenize_succeeds_iff:
  "(\<exists>ts. tokenize s = Inr ts) \<longleftrightarrow> (\<forall>p c q. s = p @ c # q \<longrightarrow> \<not> invalidAt p c)"
proof -
  have spec: "case firstInvalid [] s of
      Some c \<Rightarrow> tokenizeLoop s [] = Inl (Error (''Invalid character in expression: '' @ [c]))
    | None \<Rightarrow> (\<exists>ts. tokenizeLoop s [] = Inr ts)"
    by (rule tokenizeLoop_firstInvalid) simp
  show ?thesis
  proof (cases "firstInvalid [] s")
    case None
    then show ?thesis
      using spec firstInvalid_None_iff[of "[]" s] by (simp add: tokenize_def)
  next
    case (Some c)
    then show ?thesis
      using spec firstInvalid_None_iff[of "[]" s] by (auto simp: tokenize_def)
  qed
qed

subsection \<open>Input that is not blank has tokens\<close>

lemma parseFloat_digit: "isDigit c \<Longrightarrow> parseFloat (c # cs) \<noteq> None"
  by (simp add: parseFloat_def Let_def)

lemma tokenizeLoop_length:
  "tokenizeLoop s tokens = Inr ts \<Longrightarrow> length tokens \<le> length ts"
proof (induction s tokens rule: tokenizeLoop.induct)
  case (1 tokens)
  then show ?case by simp
next
  case (2 c cs tokens)
  show ?case
  proof (cases "isWhitespace c")
    case True
    then show ?thesis using "2.IH"(1) "2.prems" by simp
  next
    case notws: False
    show ?thesis
    proof (cases "isDigit c")
      case True
      show ?thesis
      proof (cases "parseFloat (fst (scanNumber [] (c # cs)))")
        case None
        then show ?thesis using "2.IH"(2)[OF notws True None] "2.prems" notws True by simp
      next
        case (Some num)
        then show ?thesis using "2.IH"(3)[OF notws True Some] "2.prems" notws True by simp
      qed
    next
      case notdigit: False
      show ?thesis
      proof (cases "isOperatorChar c")
        case True
        then show ?thesis using "2.IH"(4)[OF notws notdigit True] "2.prems" notws notdigit by simp
      next
        case notop: False
        show ?thesis
        proof (cases "c = CHR ''(''")
          case True
          then show ?thesis
            using "2.IH"(5)[OF notws notdigit notop True] "2.prems" notws notdigit notop by simp
        next
          case notl: False
          show ?thesis
          proof (cases "c = CHR '')''")
            case True
            then show ?thesis
              using "2.IH"(6)[OF notws notdigit notop notl True] "2.prems" notws notdigit notop notl
              by simp
          next
            case False
            then show ?thesis using "2.prems" notws notdigit notop notl by simp
          qed
        qed
      qed
    qed
  qed
qed

lemma tokenizeLoop_nonblank:
  "tokenizeLoop s tokens = Inr ts \<Longrightarrow> \<exists>c \<in> set s. \<not> isWhitespace c \<Longrightarrow>
   length tokens < length ts"
proof (induction s tokens rule: tokenizeLoop.induct)
  case (1 tokens)
  then show ?case by simp
next
  case (2 c cs tokens)
  show ?case
  proof (cases "isWhitespace c")
    case True
    then show ?thesis using "2.IH"(1) "2.prems" by simp
  next
    case notws: False
    show ?thesis
    proof (cases "isDigit c")
      case True
      have "isDigitOrDot c" using True by (simp add: isDigitOrDot_def)
      then have "fst (scanNumber [] (c # cs)) = c # takeWhile isDigitOrDot cs"
        by (simp add: scanNumber_eq)
      then obtain num where num: "parseFloat (fst (scanNumber [] (c # cs))) = Some num"
        using parseFloat_digit[OF True] by fastforce
      then have "tokenizeLoop (snd (scanNumber [] (c # cs))) (tokens @ [NumberTok num]) = Inr ts"
        using "2.prems"(1) notws True by simp
      from tokenizeLoop_length[OF this] show ?thesis by simp
    next
      case notdigit: False
      have "tokenizeLoop cs (tokens @ [OperatorTok c]) = Inr ts
            \<or> tokenizeLoop cs (tokens @ [LparenTok]) = Inr ts
            \<or> tokenizeLoop cs (tokens @ [RparenTok]) = Inr ts"
        using notws notdigit "2.prems"(1) by (simp split: if_splits)
      then show ?thesis
        using tokenizeLoop_length[of cs "tokens @ [OperatorTok c]" ts]
          tokenizeLoop_length[of cs "tokens @ [LparenTok]" ts]
          tokenizeLoop_length[of cs "tokens @ [RparenTok]" ts]
        by auto
    qed
  qed
qed

lemma tokenize_nonblank: "\<not> isBlank s \<Longrightarrow> tokenize s = Inr ts \<Longrightarrow> ts \<noteq> []"
  using tokenizeLoop_nonblank[of s "[]" ts] by (auto simp: isBlank_iff tokenize_def)

subsection \<open>A run of digits and dots is one number token\<close>

lemma tokenizeLoop_number:
  assumes d: "isDigit c" and run: "\<forall>x \<in> set run. isDigitOrDot x"
    and stop: "rest = [] \<or> \<not> isDigitOrDot (hd rest)"
  shows "\<exists>num. parseFloat (c # run) = Some num
           \<and> tokenizeLoop (c # run @ rest) tokens = tokenizeLoop rest (tokens @ [NumberTok num])"
proof -
  have dd: "isDigitOrDot c" using d by (simp add: isDigitOrDot_def)
  have nws: "\<not> isWhitespace c"
    using d by (auto simp: isDigit_def isWhitespace_def)
  have tw: "takeWhile isDigitOrDot rest = []" and dw: "dropWhile isDigitOrDot rest = rest"
    using stop by (cases rest; simp)+
  have t: "takeWhile isDigitOrDot (run @ rest) = run"
    using run tw by (simp add: takeWhile_append2)
  have dr: "dropWhile isDigitOrDot (run @ rest) = rest"
    using run dw by (simp add: dropWhile_append2)
  have sn: "scanNumber [] (c # run @ rest) = (c # run, rest)"
    using dd t dr by (simp add: scanNumber_eq)
  obtain num where num: "parseFloat (c # run) = Some num"
    using parseFloat_digit[OF d, of run] by auto
  have "tokenizeLoop (c # run @ rest) tokens = tokenizeLoop rest (tokens @ [NumberTok num])"
    using nws d sn num by simp
  with num show ?thesis by blast
qed

subsection \<open>When the lexer fails\<close>

text \<open>
  Claim C5, as amended. \<open>tokenize\<close> fails exactly when the input contains an
  invalid character: one that is not whitespace, a digit, one of \<open>+ - * /\<close> or a
  parenthesis, other than a dot that directly follows a digit or a dot. The error
  names the first such character. In particular every character outside whitespace,
  digits, the dot, the operators and the parentheses makes \<open>tokenize\<close> fail. A run of
  digits and dots that a digit starts never fails, however many dots it has: it gives
  one number token, whose value is what \<open>parseFloat\<close> reads in the run, the longest
  prefix \<open>digits[.digits]\<close>; so \<open>"1.2.3"\<close> is the number 1.2 and \<open>"1.."\<close> is the
  number 1.
\<close>

theorem tokenize_fails_exactly_on_invalid_character:
  "(\<forall>s. (\<exists>e. tokenize s = Inl e) \<longleftrightarrow> (\<exists>p c q. s = p @ c # q \<and> invalidAt p c))
   \<and> (\<forall>s e. tokenize s = Inl e \<longrightarrow>
         (\<exists>p c q. s = p @ c # q \<and> invalidAt p c
            \<and> (\<forall>p' c' q'. p = p' @ c' # q' \<longrightarrow> \<not> invalidAt p' c')
            \<and> e = Error (''Invalid character in expression: '' @ [c])))
   \<and> (\<forall>s. (\<exists>c \<in> set s. \<not> isWhitespace c \<and> \<not> isDigit c \<and> c \<noteq> CHR ''.''
             \<and> \<not> isOperatorChar c \<and> c \<noteq> CHR ''('' \<and> c \<noteq> CHR '')'')
          \<longrightarrow> (\<exists>e. tokenize s = Inl e))
   \<and> (\<forall>c run rest tokens.
          isDigit c \<and> (\<forall>x \<in> set run. isDigitOrDot x)
          \<and> (rest = [] \<or> \<not> isDigitOrDot (hd rest)) \<longrightarrow>
          (\<exists>num. parseFloat (c # run) = Some num
             \<and> tokenizeLoop (c # run @ rest) tokens
                 = tokenizeLoop rest (tokens @ [NumberTok num])))
   \<and> tokenize ''1.2.3'' = Inr [NumberTok (6 / 5)]
   \<and> tokenize ''1..'' = Inr [NumberTok 1]"
proof -
  have iff: "(\<exists>e. tokenize s = Inl e) \<longleftrightarrow> (\<exists>p c q. s = p @ c # q \<and> invalidAt p c)" for s
  proof -
    have "(\<exists>e. tokenize s = Inl e) \<longleftrightarrow> \<not> (\<exists>ts. tokenize s = Inr ts)"
      by (cases "tokenize s") auto
    then show ?thesis using tokenize_succeeds_iff[of s] by blast
  qed
  have chars: "\<exists>e. tokenize s = Inl e"
    if "\<exists>c \<in> set s. \<not> isWhitespace c \<and> \<not> isDigit c \<and> c \<noteq> CHR ''.''
             \<and> \<not> isOperatorChar c \<and> c \<noteq> CHR ''('' \<and> c \<noteq> CHR '')''" for s
  proof -
    from that obtain c where c: "c \<in> set s" "\<not> isWhitespace c" "\<not> isDigit c" "c \<noteq> CHR ''.''"
      "\<not> isOperatorChar c" "c \<noteq> CHR ''(''" "c \<noteq> CHR '')''" by blast
    from c(1) obtain p q where "s = p @ c # q" by (meson split_list)
    moreover have "invalidAt p c" using c by (simp add: invalidAt_def)
    ultimately show ?thesis using iff by blast
  qed
  have number: "\<exists>num. parseFloat (c # run) = Some num
             \<and> tokenizeLoop (c # run @ rest) tokens
                 = tokenizeLoop rest (tokens @ [NumberTok num])"
    if "isDigit c \<and> (\<forall>x \<in> set run. isDigitOrDot x)
          \<and> (rest = [] \<or> \<not> isDigitOrDot (hd rest))" for c run rest tokens
    using that tokenizeLoop_number[of c run rest tokens] by blast
  have ex: "tokenize ''1.2.3'' = Inr [NumberTok (6 / 5)]" "tokenize ''1..'' = Inr [NumberTok 1]"
    by (simp_all add: lexer_defs)
  show ?thesis
    by (intro conjI allI impI; (rule iff ex | erule tokenize_fails_first chars number))
qed

theorem tokenize_fails_exactly_on_invalid_character_witness:
  "invalidAt ''2 + '' (CHR ''#'')
   \<and> tokenize ''2 + # 3'' = Inl (Error ''Invalid character in expression: #'')
   \<and> (\<exists>p c q. ''2 + # 3'' = p @ c # q \<and> invalidAt p c)
   \<and> isDigit (CHR ''1'') \<and> isDigitOrDot (CHR ''.'') \<and> isDigitOrDot (CHR ''2'')
   \<and> isDigitOrDot (CHR ''3'') \<and> \<not> isDigitOrDot (CHR ''+'')
   \<and> (\<exists>num. parseFloat ''1.2.3'' = Some num
         \<and> tokenizeLoop ''1.2.3+'' [] = tokenizeLoop ''+'' [NumberTok num])
   \<and> parseFloat ''1.2.3'' = Some (6 / 5)"
proof -
  have t: "tokenize ''2 + # 3'' = Inl (Error ''Invalid character in expression: #'')"
    by (simp add: lexer_defs)
  have "(\<exists>e. tokenize ''2 + # 3'' = Inl e) \<longleftrightarrow> (\<exists>p c q. ''2 + # 3'' = p @ c # q \<and> invalidAt p c)"
    by (rule tokenize_fails_exactly_on_invalid_character[THEN conjunct1, rule_format])
  with t have dec: "\<exists>p c q. ''2 + # 3'' = p @ c # q \<and> invalidAt p c" by simp
  have inv: "invalidAt ''2 + '' (CHR ''#'')"
    by (simp add: invalidAt_def lexer_defs)
  have chars: "isDigit (CHR ''1'')" "isDigitOrDot (CHR ''.'')" "isDigitOrDot (CHR ''2'')"
    "isDigitOrDot (CHR ''3'')" "\<not> isDigitOrDot (CHR ''+'')"
    by (simp_all add: isDigit_def isDigitOrDot_def)
  then have "isDigit (CHR ''1'') \<and> (\<forall>x \<in> set ''.2.3''. isDigitOrDot x)
      \<and> (''+'' = [] \<or> \<not> isDigitOrDot (hd ''+''))"
    by simp
  then have "\<exists>num. parseFloat (CHR ''1'' # ''.2.3'') = Some num
      \<and> tokenizeLoop (CHR ''1'' # ''.2.3'' @ ''+'') []
          = tokenizeLoop ''+'' ([] @ [NumberTok num])"
    by (rule tokenize_fails_exactly_on_invalid_character
        [THEN conjunct2, THEN conjunct2, THEN conjunct2, THEN conjunct1, rule_format])
  then have run: "\<exists>num. parseFloat ''1.2.3'' = Some num
         \<and> tokenizeLoop ''1.2.3+'' [] = tokenizeLoop ''+'' [NumberTok num]"
    by simp
  have pf: "parseFloat ''1.2.3'' = Some (6 / 5)"
    by (simp add: lexer_defs)
  show ?thesis using inv t dec chars run pf by simp
qed

text \<open>
  As stated, the claim has \<open>tokenize\<close> fail on a literal with several decimal points,
  and succeed on every input of allowed characters with well-formed literals. The
  lexer accepts \<open>"1.2.3"\<close>, and it rejects the dot of \<open>".5"\<close>.
\<close>

theorem tokenize_accepts_multiple_dots:
  "tokenize ''1.2.3'' = Inr [NumberTok (6 / 5)]
   \<and> tokenize ''.5'' = Inl (Error ''Invalid character in expression: .'')"
  by (simp add: lexer_defs)

section \<open>The parser\<close>

subsection \<open>Every expression of the grammar parses to its tree\<close>

lemma parseMulDivLoop_stop:
  "\<not> startsWithOperator ''*/'' rest \<Longrightarrow> parseMulDivLoop left rest = Inr (left, rest)"
  by (cases rest) (auto simp: startsWithOperator_def split: Token.splits)

lemma parseAddSubLoop_stop:
  "\<not> startsWithOperator ''+-'' rest \<Longrightarrow> parseAddSubLoop left rest = Inr (left, rest)"
  by (cases rest) (auto simp: startsWithOperator_def split: Token.splits)

lemma mulChar_cases: "mulChar operator = CHR ''*'' \<or> mulChar operator = CHR ''/''"
  by (cases operator) simp_all

lemma addChar_cases: "addChar operator = CHR ''+'' \<or> addChar operator = CHR ''-''"
  by (cases operator) simp_all

lemma not_startsMul_add: "\<not> startsWithOperator ''*/'' (OperatorTok (addChar operator) # ts)"
  by (cases operator) (simp_all add: startsWithOperator_def)

lemma not_startsMul_rparen: "\<not> startsWithOperator ops (RparenTok # ts)"
  by (simp add: startsWithOperator_def)

lemma parse_grammar:
  "parsePrimary (tokensP p @ rest1) = Inr (treeP p, rest1)"
  "parseMulDiv (tokensM m @ rest2) = parseMulDivLoop (treeM m) rest2"
  "\<not> startsWithOperator ''*/'' rest3 \<longrightarrow>
     parseAddSub (tokensA a @ rest3) = parseAddSubLoop (treeA a) rest3"
proof (induction p and m and a arbitrary: rest1 and rest2 and rest3)
  case (PNumber v)
  show ?case by simp
next
  case (PGroup a)
  have "parseAddSub (tokensA a @ RparenTok # rest1) = parseAddSubLoop (treeA a) (RparenTok # rest1)"
    using PGroup[of "RparenTok # rest1"] not_startsMul_rparen by blast
  also have "\<dots> = Inr (treeA a, RparenTok # rest1)"
    by (rule parseAddSubLoop_stop) (rule not_startsMul_rparen)
  finally show ?case by (simp del: parseAddSub.simps)
next
  case (PNegate p)
  then show ?case by simp
next
  case (PPlus p)
  then show ?case by simp
next
  case (MPrimary p)
  have "parseMulDiv (tokensP p @ rest2) =
      (case parsePrimary (tokensP p @ rest2) of
         Inl e \<Rightarrow> Inl e | Inr (left, rest) \<Rightarrow> parseMulDivLoop left rest)"
    by (rule parseMulDiv.simps)
  then show ?case using MPrimary[of rest2] by simp
next
  case (MBinary m operator p)
  have "parseMulDiv (tokensM (MBinary m operator p) @ rest2) =
      parseMulDivLoop (treeM m) (OperatorTok (mulChar operator) # tokensP p @ rest2)"
    using MBinary(1)[of "OperatorTok (mulChar operator) # tokensP p @ rest2"]
    by (simp del: parseMulDiv.simps)
  also have "\<dots> = parseMulDivLoop (BinaryNode (mulChar operator) (treeM m) (treeP p)) rest2"
    using MBinary(2)[of rest2] mulChar_cases[of operator] by auto
  finally show ?case by simp
next
  case (AMultiplicative m)
  show ?case
  proof
    assume stop: "\<not> startsWithOperator ''*/'' rest3"
    have "parseAddSub (tokensM m @ rest3) =
        (case parseMulDiv (tokensM m @ rest3) of
           Inl e \<Rightarrow> Inl e | Inr (left, rest) \<Rightarrow> parseAddSubLoop left rest)"
      by (rule parseAddSub.simps)
    also have "parseMulDiv (tokensM m @ rest3) = Inr (treeM m, rest3)"
      using AMultiplicative[of rest3] parseMulDivLoop_stop[OF stop] by simp
    finally show "parseAddSub (tokensA (AMultiplicative m) @ rest3)
        = parseAddSubLoop (treeA (AMultiplicative m)) rest3"
      by simp
  qed
next
  case (ABinary a operator m)
  show ?case
  proof
    assume stop: "\<not> startsWithOperator ''*/'' rest3"
    have "parseAddSub (tokensA (ABinary a operator m) @ rest3) =
        parseAddSubLoop (treeA a) (OperatorTok (addChar operator) # tokensM m @ rest3)"
      using ABinary(1)[of "OperatorTok (addChar operator) # tokensM m @ rest3"]
        not_startsMul_add[of operator]
      by (simp del: parseAddSub.simps)
    also have "\<dots> =
        (case parseMulDiv (tokensM m @ rest3) of
           Inl e \<Rightarrow> Inl e
         | Inr (right, rest) \<Rightarrow>
             parseAddSubLoop (BinaryNode (addChar operator) (treeA a) right) rest)"
      using addChar_cases[of operator] by (auto simp del: parseMulDiv.simps)
    also have "parseMulDiv (tokensM m @ rest3) = Inr (treeM m, rest3)"
      using ABinary(2)[of rest3] parseMulDivLoop_stop[OF stop] by simp
    finally show "parseAddSub (tokensA (ABinary a operator m) @ rest3)
        = parseAddSubLoop (treeA (ABinary a operator m)) rest3"
      by simp
  qed
qed

lemma parseAddSub_grammar:
  "\<not> startsWithOperator ''+-*/'' rest \<Longrightarrow> parseAddSub (tokensA a @ rest) = Inr (treeA a, rest)"
proof -
  assume stop: "\<not> startsWithOperator ''+-*/'' rest"
  then have m: "\<not> startsWithOperator ''*/'' rest" and s: "\<not> startsWithOperator ''+-'' rest"
    by (auto simp: startsWithOperator_def split: list.splits Token.splits)
  show ?thesis
    using parse_grammar(3)[of rest a] m parseAddSubLoop_stop[OF s] by simp
qed

lemma parse_tokensA: "parse (tokensA a) = Inr (treeA a)"
  using parseAddSub_grammar[of "[]" a]
  by (simp add: parse_def startsWithOperator_def del: parseAddSub.simps)



subsection \<open>Every parse is the reading of an expression of the grammar\<close>





subsection \<open>The parser builds trees of the four operators\<close>

lemma parse_knownOperators:
  "\<forall>n r. parseAddSub ts1 = Inr (n, r) \<longrightarrow> knownOperators n"
  "knownOperators l2 \<longrightarrow> (\<forall>n r. parseAddSubLoop l2 ts2 = Inr (n, r) \<longrightarrow> knownOperators n)"
  "\<forall>n r. parseMulDiv ts3 = Inr (n, r) \<longrightarrow> knownOperators n"
  "knownOperators l4 \<longrightarrow> (\<forall>n r. parseMulDivLoop l4 ts4 = Inr (n, r) \<longrightarrow> knownOperators n)"
  "\<forall>n r. parsePrimary ts5 = Inr (n, r) \<longrightarrow> knownOperators n"
proof (induction ts1 and l2 ts2 and ts3 and l4 ts4 and ts5
    rule: parseAddSub_parseAddSubLoop_parseMulDiv_parseMulDivLoop_parsePrimary.induct)
  case (1 ts)
  then show ?case by (fastforce split: sum.splits prod.splits)
next
  case (2 left)
  then show ?case by simp
next
  case (3 left token ts)
  then show ?case
    by (fastforce split: sum.splits prod.splits Token.splits if_splits)
next
  case (4 ts)
  then show ?case by (fastforce split: sum.splits prod.splits)
next
  case (5 left)
  then show ?case by simp
next
  case (6 left token ts)
  then show ?case
    by (fastforce split: sum.splits prod.splits Token.splits if_splits)
next
  case 7
  then show ?case by simp
next
  case (8 token ts)
  then show ?case
    by (fastforce split: sum.splits prod.splits Token.splits if_splits list.splits)
qed

lemma parse_result_knownOperators: "parse ts = Inr n \<Longrightarrow> knownOperators n"
  using parse_knownOperators(1)[of ts]
  by (auto simp: parse_def split: sum.splits prod.splits)

subsection \<open>Chains of unary minus\<close>

lemma parsePrimary_minus_chain:
  "parsePrimary (replicate k (OperatorTok (CHR ''-'')) @ NumberTok v # rest)
     = Inr ((UnaryNode (CHR ''-'') ^^ k) (NumberNode v), rest)"
  by (induction k) simp_all

lemma evaluateNode_minus_chain:
  "evaluateNode ((UnaryNode (CHR ''-'') ^^ k) (NumberNode v)) = Inr ((- 1) ^ k * v)"
  by (induction k) simp_all

section \<open>The evaluator\<close>

lemma evaluateNode_error:
  "knownOperators n \<Longrightarrow> evaluateNode n = Inl e \<Longrightarrow> e = Error ''Division by zero''"
proof (induction n)
  case (NumberNode v)
  then show ?case by simp
next
  case (UnaryNode operator right)
  then show ?case by (auto split: sum.splits if_splits)
next
  case (BinaryNode operator l r)
  then show ?case by (auto split: sum.splits if_splits)
qed

lemma evaluateNode_fails_iff:
  "knownOperators n \<Longrightarrow>
   (\<exists>e. evaluateNode n = Inl e) \<longleftrightarrow>
   (\<exists>l r. BinaryNode (CHR ''/'') l r \<in> subnodes n \<and> evaluateNode r = Inr 0)"
proof (induction n)
  case (NumberNode v)
  then show ?case by simp
next
  case (UnaryNode operator right)
  then have ih: "(\<exists>e. evaluateNode right = Inl e) \<longleftrightarrow>
      (\<exists>l r. BinaryNode (CHR ''/'') l r \<in> subnodes right \<and> evaluateNode r = Inr 0)"
    by simp
  have "(\<exists>e. evaluateNode (UnaryNode operator right) = Inl e) \<longleftrightarrow> (\<exists>e. evaluateNode right = Inl e)"
    by (cases "evaluateNode right") auto
  then show ?case using ih by simp
next
  case (BinaryNode operator l r)
  then have op: "operator \<in> set ''+-*/''" and kl: "knownOperators l" and kr: "knownOperators r"
    by simp_all
  have ihl: "(\<exists>e. evaluateNode l = Inl e) \<longleftrightarrow>
      (\<exists>a b. BinaryNode (CHR ''/'') a b \<in> subnodes l \<and> evaluateNode b = Inr 0)"
    using BinaryNode.IH(1) kl by simp
  have ihr: "(\<exists>e. evaluateNode r = Inl e) \<longleftrightarrow>
      (\<exists>a b. BinaryNode (CHR ''/'') a b \<in> subnodes r \<and> evaluateNode b = Inr 0)"
    using BinaryNode.IH(2) kr by simp
  have here: "(\<exists>e. evaluateNode (BinaryNode operator l r) = Inl e) \<longleftrightarrow>
      (\<exists>e. evaluateNode l = Inl e) \<or> (\<exists>e. evaluateNode r = Inl e)
      \<or> (operator = CHR ''/'' \<and> evaluateNode r = Inr 0)"
    using op by (cases "evaluateNode l"; cases "evaluateNode r") auto
  show ?case
    unfolding here ihl ihr by auto
qed

text \<open>
  Claim C3. Tree evaluation fails only on division by zero: on a tree of the four
  operators (every tree the parser returns is one) \<open>evaluateNode\<close> fails exactly when
  the tree has a division node whose right operand evaluates to 0, and the error is
  then \<open>Division by zero\<close>; no other operation fails. Every error of \<open>evaluate\<close> carries
  the prefix \<open>Calculation error: \<close>, and \<open>evaluate("5 / 0")\<close> fails with
  \<open>Calculation error: Division by zero\<close>.
\<close>

theorem evaluateNode_fails_only_on_division_by_zero:
  "(\<forall>n. knownOperators n \<longrightarrow>
        ((\<exists>e. evaluateNode n = Inl e) \<longleftrightarrow>
         (\<exists>l r. BinaryNode (CHR ''/'') l r \<in> subnodes n \<and> evaluateNode r = Inr 0)))
   \<and> (\<forall>n e. knownOperators n \<and> evaluateNode n = Inl e \<longrightarrow> e = Error ''Division by zero'')
   \<and> (\<forall>ts n. parse ts = Inr n \<longrightarrow> knownOperators n)
   \<and> (\<forall>s e. evaluate s = Inl e \<longrightarrow> (\<exists>m. e = Error (''Calculation error: '' @ m)))
   \<and> (\<forall>s ts n e. \<not> isBlank s \<and> tokenize s = Inr ts \<and> parse ts = Inr n \<and> evaluateNode n = Inl e
         \<longrightarrow> evaluate s = Inl (Error ''Calculation error: Division by zero''))
   \<and> evaluate ''5 / 0'' = Inl (Error ''Calculation error: Division by zero'')"
proof -
  have prefix: "\<exists>m. e = Error (''Calculation error: '' @ m)" if "evaluate s = Inl e" for s e
    using that by (auto simp: evaluate_def split: if_splits sum.splits)
  have top: "evaluate s = Inl (Error ''Calculation error: Division by zero'')"
    if "\<not> isBlank s \<and> tokenize s = Inr ts \<and> parse ts = Inr n \<and> evaluateNode n = Inl e"
    for s ts n e
  proof -
    from that have nb: "\<not> isBlank s" and tk: "tokenize s = Inr ts" and p: "parse ts = Inr n"
      and ev: "evaluateNode n = Inl e" by simp_all
    have "ts \<noteq> []" using tokenize_nonblank[OF nb tk] .
    moreover have "e = Error ''Division by zero''"
      using evaluateNode_error[OF parse_result_knownOperators[OF p] ev] .
    ultimately show ?thesis
      using nb tk p ev by (simp add: evaluate_def evaluateBody_def)
  qed
  have ex: "evaluate ''5 / 0'' = Inl (Error ''Calculation error: Division by zero'')"
    by (simp add: lexer_defs entry_defs)
  show ?thesis
    using evaluateNode_fails_iff evaluateNode_error parse_result_knownOperators prefix top ex
    by blast
qed

theorem evaluateNode_fails_only_on_division_by_zero_witness:
  "\<not> isBlank ''1 + 5 / 0''
   \<and> tokenize ''1 + 5 / 0'' = Inr [NumberTok 1, OperatorTok (CHR ''+''), NumberTok 5,
                                      OperatorTok (CHR ''/''), NumberTok 0]
   \<and> parse [NumberTok 1, OperatorTok (CHR ''+''), NumberTok 5, OperatorTok (CHR ''/''), NumberTok 0]
       = Inr (BinaryNode (CHR ''+'') (NumberNode 1)
                (BinaryNode (CHR ''/'') (NumberNode 5) (NumberNode 0)))
   \<and> knownOperators (BinaryNode (CHR ''+'') (NumberNode 1)
        (BinaryNode (CHR ''/'') (NumberNode 5) (NumberNode 0)))
   \<and> evaluateNode (BinaryNode (CHR ''+'') (NumberNode 1)
        (BinaryNode (CHR ''/'') (NumberNode 5) (NumberNode 0))) = Inl (Error ''Division by zero'')
   \<and> (\<exists>l r. BinaryNode (CHR ''/'') l r \<in> subnodes (BinaryNode (CHR ''+'') (NumberNode 1)
        (BinaryNode (CHR ''/'') (NumberNode 5) (NumberNode 0))) \<and> evaluateNode r = Inr 0)
   \<and> evaluate ''1 + 5 / 0'' = Inl (Error ''Calculation error: Division by zero'')"
proof -
  let ?ts = "[NumberTok 1, OperatorTok (CHR ''+''), NumberTok 5, OperatorTok (CHR ''/''), NumberTok 0]"
  let ?n = "BinaryNode (CHR ''+'') (NumberNode 1)
      (BinaryNode (CHR ''/'') (NumberNode 5) (NumberNode 0))"
  have nb: "\<not> isBlank ''1 + 5 / 0''"
    by (simp add: isBlank_def trim_def isWhitespace_def)
  have tk: "tokenize ''1 + 5 / 0'' = Inr ?ts" by (simp add: lexer_defs)
  have p: "parse ?ts = Inr ?n" by (simp add: parse_def)
  have k: "knownOperators ?n"
    using p
    by (rule evaluateNode_fails_only_on_division_by_zero
        [THEN conjunct2, THEN conjunct2, THEN conjunct1, rule_format])
  have f: "evaluateNode ?n = Inl (Error ''Division by zero'')" by simp
  have "(\<exists>e. evaluateNode ?n = Inl e) \<longleftrightarrow>
         (\<exists>l r. BinaryNode (CHR ''/'') l r \<in> subnodes ?n \<and> evaluateNode r = Inr 0)"
    using k
    by (rule evaluateNode_fails_only_on_division_by_zero[THEN conjunct1, rule_format])
  with f have d: "\<exists>l r. BinaryNode (CHR ''/'') l r \<in> subnodes ?n \<and> evaluateNode r = Inr 0"
    by simp
  from nb tk p f have "\<not> isBlank ''1 + 5 / 0'' \<and> tokenize ''1 + 5 / 0'' = Inr ?ts
      \<and> parse ?ts = Inr ?n \<and> evaluateNode ?n = Inl (Error ''Division by zero'')"
    by simp
  then have top: "evaluate ''1 + 5 / 0'' = Inl (Error ''Calculation error: Division by zero'')"
    by (rule evaluateNode_fails_only_on_division_by_zero
        [THEN conjunct2, THEN conjunct2, THEN conjunct2, THEN conjunct2, THEN conjunct1,
         rule_format])
  show ?thesis using nb tk p k f d top by simp
qed

section \<open>The entry point evaluate\<close>





text \<open>
  Claim C2, as amended. A parenthesized group overrides operator precedence and
  nesting composes: an opening parenthesis, the tokens of any expression and a closing
  parenthesis parse as one primary, whose tree is the tree of the expression; so
  \<open>(x + y) * z\<close> is the product of a sum, \<open>evaluate("(2 + 3) * 4") = 20\<close> and
  \<open>evaluate("((2 + 3) * 4) / 2") = 10\<close>. When the expression after an opening
  parenthesis parses and the next token is not a closing parenthesis, the parse fails
  with \<open>Missing closing parenthesis\<close>, as for \<open>evaluate("(2 + 3")\<close>; when that expression
  itself fails to parse, its error is the one reported.
\<close>

theorem parenthesized_group:
  "(\<forall>a rest. parsePrimary (LparenTok # tokensA a @ RparenTok # rest) = Inr (treeA a, rest))
   \<and> (\<forall>x y z f g.
          parse [LparenTok, NumberTok x, OperatorTok (addChar f), NumberTok y, RparenTok,
                 OperatorTok (mulChar g), NumberTok z]
            = Inr (BinaryNode (mulChar g)
                     (BinaryNode (addChar f) (NumberNode x) (NumberNode y)) (NumberNode z)))
   \<and> (\<forall>ts expr rest. parseAddSub ts = Inr (expr, rest) \<and> (rest = [] \<or> hd rest \<noteq> RparenTok) \<longrightarrow>
          parsePrimary (LparenTok # ts) = Inl (Error ''Missing closing parenthesis''))
   \<and> (\<forall>ts e. parseAddSub ts = Inl e \<longrightarrow> parsePrimary (LparenTok # ts) = Inl e)
   \<and> evaluate ''(2 + 3) * 4'' = Inr 20
   \<and> evaluate ''((2 + 3) * 4) / 2'' = Inr 10
   \<and> evaluate ''(2 + 3'' = Inl (Error ''Calculation error: Missing closing parenthesis'')"
proof -
  have group: "parsePrimary (LparenTok # tokensA a @ RparenTok # rest) = Inr (treeA a, rest)"
    for a rest
    using parse_grammar(1)[of "PGroup a" rest] by simp
  have shape: "parse [LparenTok, NumberTok x, OperatorTok (addChar f), NumberTok y, RparenTok,
                 OperatorTok (mulChar g), NumberTok z]
            = Inr (BinaryNode (mulChar g)
                     (BinaryNode (addChar f) (NumberNode x) (NumberNode y)) (NumberNode z))"
    for x y z f g
    using parse_tokensA[of "AMultiplicative (MBinary (MPrimary (PGroup
        (ABinary (AMultiplicative (MPrimary (PNumber x))) f (MPrimary (PNumber y))))) g (PNumber z))"]
    by simp
  have missing: "parsePrimary (LparenTok # ts) = Inl (Error ''Missing closing parenthesis'')"
    if "parseAddSub ts = Inr (expr, rest) \<and> (rest = [] \<or> hd rest \<noteq> RparenTok)" for ts expr rest
    using that by (cases rest) (auto simp del: parseAddSub.simps)
  have inner: "parsePrimary (LparenTok # ts) = Inl e" if "parseAddSub ts = Inl e" for ts e
    using that by (simp del: parseAddSub.simps)
  have ex: "evaluate ''(2 + 3) * 4'' = Inr 20" "evaluate ''((2 + 3) * 4) / 2'' = Inr 10"
    "evaluate ''(2 + 3'' = Inl (Error ''Calculation error: Missing closing parenthesis'')"
    by (simp_all add: lexer_defs entry_defs)
  show ?thesis
    by (intro conjI allI impI; (rule group shape ex | erule missing inner))
qed

theorem parenthesized_group_witness:
  "parseAddSub [NumberTok 2, OperatorTok (CHR ''+''), NumberTok 3]
     = Inr (BinaryNode (CHR ''+'') (NumberNode 2) (NumberNode 3), [])
   \<and> parsePrimary [LparenTok, NumberTok 2, OperatorTok (CHR ''+''), NumberTok 3]
       = Inl (Error ''Missing closing parenthesis'')
   \<and> parseAddSub [NumberTok 2, OperatorTok (CHR ''+'')] = Inl (Error ''Unexpected end of expression'')
   \<and> parsePrimary [LparenTok, NumberTok 2, OperatorTok (CHR ''+'')]
       = Inl (Error ''Unexpected end of expression'')"
proof -
  have a: "parseAddSub [NumberTok 2, OperatorTok (CHR ''+''), NumberTok 3]
     = Inr (BinaryNode (CHR ''+'') (NumberNode 2) (NumberNode 3), [])"
    by simp
  then have "parseAddSub [NumberTok 2, OperatorTok (CHR ''+''), NumberTok 3]
     = Inr (BinaryNode (CHR ''+'') (NumberNode 2) (NumberNode 3), []) \<and> ([] = [] \<or> hd [] \<noteq> RparenTok)"
    by simp
  then have b: "parsePrimary (LparenTok # [NumberTok 2, OperatorTok (CHR ''+''), NumberTok 3])
       = Inl (Error ''Missing closing parenthesis'')"
    by (rule parenthesized_group
        [THEN conjunct2, THEN conjunct2, THEN conjunct1, rule_format])
  have c: "parseAddSub [NumberTok 2, OperatorTok (CHR ''+'')] = Inl (Error ''Unexpected end of expression'')"
    by simp
  then have d: "parsePrimary (LparenTok # [NumberTok 2, OperatorTok (CHR ''+'')])
       = Inl (Error ''Unexpected end of expression'')"
    by (rule parenthesized_group
        [THEN conjunct2, THEN conjunct2, THEN conjunct2, THEN conjunct1, rule_format])
  show ?thesis using a b c d by simp
qed

text \<open>
  As stated, the claim has every unclosed parenthesis fail with the missing
  parenthesis error. On \<open>"(2 +"\<close> the parser fails earlier, at the missing operand.
\<close>

theorem unclosed_group_may_fail_earlier:
  "evaluate ''(2 +'' = Inl (Error ''Calculation error: Unexpected end of expression'')"
  by (simp add: lexer_defs entry_defs)

text \<open>
  Claim C7. Repeated unary minuses are legal and cancel pairwise: a unary minus
  parses the primary that follows and wraps it in a negation node, a unary plus
  returns the primary that follows unchanged; \<open>k\<close> minus signs before a number parse
  to \<open>k\<close> nested negations, which evaluate to the number times \<open>(-1)^k\<close>, and two
  negations evaluate as their operand does. In particular \<open>evaluate("--5") = 5\<close> and
  \<open>evaluate("---5") = -5\<close>.
\<close>

theorem unary_minus_chain:
  "(\<forall>ts. parsePrimary (OperatorTok (CHR ''-'') # ts) =
          (case parsePrimary ts of
             Inl e \<Rightarrow> Inl e
           | Inr (operand, rest) \<Rightarrow> Inr (UnaryNode (CHR ''-'') operand, rest)))
   \<and> (\<forall>ts. parsePrimary (OperatorTok (CHR ''+'') # ts) = parsePrimary ts)
   \<and> (\<forall>k v rest. parsePrimary (replicate k (OperatorTok (CHR ''-'')) @ NumberTok v # rest)
          = Inr ((UnaryNode (CHR ''-'') ^^ k) (NumberNode v), rest))
   \<and> (\<forall>k v. evaluateNode ((UnaryNode (CHR ''-'') ^^ k) (NumberNode v)) = Inr ((- 1) ^ k * v))
   \<and> (\<forall>n. evaluateNode (UnaryNode (CHR ''-'') (UnaryNode (CHR ''-'') n)) = evaluateNode n)
   \<and> evaluate ''--5'' = Inr 5
   \<and> evaluate ''---5'' = Inr (- 5)"
proof -
  have cancel: "evaluateNode (UnaryNode (CHR ''-'') (UnaryNode (CHR ''-'') n)) = evaluateNode n" for n
    by (cases "evaluateNode n") simp_all
  have ex: "evaluate ''--5'' = Inr 5" "evaluate ''---5'' = Inr (- 5)"
    by (simp_all add: lexer_defs entry_defs)
  have minus: "parsePrimary (OperatorTok (CHR ''-'') # ts) =
          (case parsePrimary ts of
             Inl e \<Rightarrow> Inl e
           | Inr (operand, rest) \<Rightarrow> Inr (UnaryNode (CHR ''-'') operand, rest))" for ts
    by simp
  have plus: "parsePrimary (OperatorTok (CHR ''+'') # ts) = parsePrimary ts" for ts
    by simp
  show ?thesis
    by (intro conjI allI;
        rule minus plus parsePrimary_minus_chain evaluateNode_minus_chain cancel ex)
qed



section \<open>The entry point isValidExpression\<close>

subsection \<open>The loop over the tokens computes the parenthesis depth\<close>

lemma parenDepth_Nil: "parenDepth [] = 0"
  by (simp add: parenDepth_def)

lemma parenDepth_Cons:
  "parenDepth (t # ts) =
     (if t = LparenTok then 1 else if t = RparenTok then - 1 else 0) + parenDepth ts"
  by (simp add: parenDepth_def)

lemma ex_prefix_Cons:
  "(\<exists>n \<le> length (t # ts). P (take n (t # ts))) \<longleftrightarrow> P [] \<or> (\<exists>n \<le> length ts. P (t # take n ts))"
proof
  assume "\<exists>n \<le> length (t # ts). P (take n (t # ts))"
  then obtain n where n: "n \<le> length (t # ts)" "P (take n (t # ts))" by blast
  show "P [] \<or> (\<exists>n \<le> length ts. P (t # take n ts))"
  proof (cases n)
    case 0
    then show ?thesis using n by simp
  next
    case (Suc m)
    then have "m \<le> length ts" "P (t # take m ts)" using n by simp_all
    then show ?thesis by blast
  qed
next
  assume "P [] \<or> (\<exists>n \<le> length ts. P (t # take n ts))"
  then show "\<exists>n \<le> length (t # ts). P (take n (t # ts))"
  proof
    assume "P []"
    then have "0 \<le> length (t # ts) \<and> P (take 0 (t # ts))" by simp
    then show ?thesis by blast
  next
    assume "\<exists>n \<le> length ts. P (t # take n ts)"
    then obtain n where "n \<le> length ts" "P (t # take n ts)" by blast
    then have "Suc n \<le> length (t # ts) \<and> P (take (Suc n) (t # ts))" by simp
    then show ?thesis by blast
  qed
qed

lemma parenLoop_depth:
  "0 \<le> k \<Longrightarrow>
   parenLoop ts k =
     (if \<exists>n \<le> length ts. k + parenDepth (take n ts) < 0 then None
      else Some (k + parenDepth ts))"
proof (induction ts arbitrary: k)
  case Nil
  then show ?case by (simp add: parenDepth_Nil)
next
  case (Cons t ts)
  have split: "(\<exists>n \<le> length (t # ts). k + parenDepth (take n (t # ts)) < 0) \<longleftrightarrow>
      (\<exists>n \<le> length ts. k + parenDepth (t # take n ts) < 0)"
    using Cons.prems
    by (subst ex_prefix_Cons[where P = "\<lambda>xs. k + parenDepth xs < 0"])
       (simp add: parenDepth_Nil)
  show ?case
  proof (cases "t = LparenTok")
    case True
    then have "parenLoop (t # ts) k = parenLoop ts (k + 1)" by simp
    also have "\<dots> = (if \<exists>n \<le> length ts. (k + 1) + parenDepth (take n ts) < 0 then None
                      else Some ((k + 1) + parenDepth ts))"
      using Cons.prems by (intro Cons.IH) simp
    finally show ?thesis
      unfolding split using True by (simp add: parenDepth_Cons add.assoc)
  next
    case notl: False
    show ?thesis
    proof (cases "t = RparenTok")
      case True
      show ?thesis
      proof (cases "k - 1 < 0")
        case neg: True
        then have "k + parenDepth (t # take 0 ts) < 0"
          using True by (simp add: parenDepth_Cons parenDepth_Nil)
        then have "\<exists>n \<le> length ts. k + parenDepth (t # take n ts) < 0" by blast
        then show ?thesis unfolding split using True neg by simp
      next
        case nonneg: False
        then have "parenLoop (t # ts) k = parenLoop ts (k - 1)" using True by simp
        also have "\<dots> = (if \<exists>n \<le> length ts. (k - 1) + parenDepth (take n ts) < 0 then None
                      else Some ((k - 1) + parenDepth ts))"
          using nonneg by (intro Cons.IH) simp
        finally show ?thesis
          unfolding split using True
          by (simp add: parenDepth_Cons algebra_simps)
      qed
    next
      case False
      then have "parenLoop (t # ts) k = parenLoop ts k" using notl by simp
      also have "\<dots> = (if \<exists>n \<le> length ts. k + parenDepth (take n ts) < 0 then None
                      else Some (k + parenDepth ts))"
        using Cons.prems by (intro Cons.IH)
      finally show ?thesis
        unfolding split using False notl by (simp add: parenDepth_Cons)
    qed
  qed
qed

lemma isValidExpression_eq:
  "isValidExpression s =
     Inr (isBlank s \<or>
          (\<exists>ts. tokenize s = Inr ts
             \<and> (\<forall>n \<le> length ts. 0 \<le> parenDepth (take n ts))
             \<and> parenDepth ts = 0
             \<and> (\<exists>ast. parse ts = Inr ast)))"
proof (cases "isBlank s")
  case True
  then show ?thesis by (simp add: isValidExpression_def)
next
  case nb: False
  show ?thesis
  proof (cases "tokenize s")
    case (Inl e)
    then show ?thesis using nb by (simp add: isValidExpression_def isValidBody_def)
  next
    case (Inr ts)
    have ne: "ts \<noteq> []" by (rule tokenize_nonblank[OF nb Inr])
    have loop: "parenLoop ts 0 =
        (if \<exists>n \<le> length ts. parenDepth (take n ts) < 0 then None else Some (parenDepth ts))"
      using parenLoop_depth[of 0 ts] by simp
    have all: "(\<forall>n \<le> length ts. 0 \<le> parenDepth (take n ts)) \<longleftrightarrow>
               \<not> (\<exists>n \<le> length ts. parenDepth (take n ts) < 0)"
      by (auto simp: not_less)
    show ?thesis
    proof (cases "parse ts")
      case pl: (Inl e)
      then show ?thesis
        using nb Inr ne loop
        by (simp add: isValidExpression_def isValidBody_def)
    next
      case pr: (Inr ast)
      then show ?thesis
        using nb Inr ne loop all
        by (simp add: isValidExpression_def isValidBody_def)
    qed
  qed
qed

text \<open>
  Claim C4. For every input string \<open>isValidExpression\<close> returns a boolean and never
  propagates a failure: it is true exactly when the input is blank, or tokenization
  succeeds, no prefix of the tokens has a negative parenthesis depth, the depth of all
  the tokens is zero and the parse succeeds. So it returns false when tokenization
  fails, false when the running counter goes negative, false when the counter is not
  zero after the scan, false when the parse of an input that is not blank fails (the
  test in front of the \<open>try\<close> block takes whitespace-only input for empty, and
  nothing is parsed then), and true otherwise. In particular
  \<open>isValidExpression("(2 + 3")\<close>, \<open>isValidExpression("()")\<close> and
  \<open>isValidExpression("2 + # 3")\<close> are false.
\<close>

theorem isValidExpression_is_total_and_decided_by_three_checks:
  "(\<forall>s. \<exists>b. isValidExpression s = Inr b)
   \<and> (\<forall>s. isValidExpression s =
          Inr (isBlank s \<or>
               (\<exists>ts. tokenize s = Inr ts
                  \<and> (\<forall>n \<le> length ts. 0 \<le> parenDepth (take n ts))
                  \<and> parenDepth ts = 0
                  \<and> (\<exists>ast. parse ts = Inr ast))))
   \<and> (\<forall>s e. tokenize s = Inl e \<longrightarrow> isValidExpression s = Inr False)
   \<and> (\<forall>s ts. tokenize s = Inr ts \<and> (\<exists>n \<le> length ts. parenDepth (take n ts) < 0)
         \<longrightarrow> isValidExpression s = Inr False)
   \<and> (\<forall>s ts. tokenize s = Inr ts \<and> parenDepth ts \<noteq> 0
         \<longrightarrow> isValidExpression s = Inr False)
   \<and> (\<forall>s ts e. \<not> isBlank s \<and> tokenize s = Inr ts \<and> parse ts = Inl e
         \<longrightarrow> isValidExpression s = Inr False)
   \<and> (\<forall>s ts ast. tokenize s = Inr ts
               \<and> (\<forall>n \<le> length ts. 0 \<le> parenDepth (take n ts))
               \<and> parenDepth ts = 0 \<and> parse ts = Inr ast
         \<longrightarrow> isValidExpression s = Inr True)
   \<and> isValidExpression ''(2 + 3'' = Inr False
   \<and> isValidExpression ''()'' = Inr False
   \<and> isValidExpression ''2 + # 3'' = Inr False"
proof -
  have total: "\<exists>b. isValidExpression s = Inr b" for s
    by (simp add: isValidExpression_eq)
  have lex: "isValidExpression s = Inr False" if "tokenize s = Inl e" for s e
    using that tokenize_blank[of s] by (auto simp: isValidExpression_eq)
  have neg: "isValidExpression s = Inr False"
    if "tokenize s = Inr ts \<and> (\<exists>n \<le> length ts. parenDepth (take n ts) < 0)" for s ts
  proof -
    from that obtain n where n: "n \<le> length ts" "parenDepth (take n ts) < 0" by blast
    then have "ts \<noteq> []" by (auto simp: parenDepth_Nil)
    then have "\<not> isBlank s" using that tokenize_blank[of s] by auto
    moreover have "\<not> (\<forall>n \<le> length ts. 0 \<le> parenDepth (take n ts))"
      using n by (auto simp: not_le)
    ultimately show ?thesis using that by (simp add: isValidExpression_eq)
  qed
  have unbalanced: "isValidExpression s = Inr False"
    if "tokenize s = Inr ts \<and> parenDepth ts \<noteq> 0" for s ts
  proof -
    from that have "ts \<noteq> []" by (auto simp: parenDepth_Nil)
    then have "\<not> isBlank s" using that tokenize_blank[of s] by auto
    then show ?thesis using that by (simp add: isValidExpression_eq)
  qed
  have noparse: "isValidExpression s = Inr False"
    if "\<not> isBlank s \<and> tokenize s = Inr ts \<and> parse ts = Inl e" for s ts e
    using that by (simp add: isValidExpression_eq)
  have ok: "isValidExpression s = Inr True"
    if "tokenize s = Inr ts \<and> (\<forall>n \<le> length ts. 0 \<le> parenDepth (take n ts))
        \<and> parenDepth ts = 0 \<and> parse ts = Inr ast" for s ts ast
    using that by (simp add: isValidExpression_eq)
  have ex: "isValidExpression ''(2 + 3'' = Inr False" "isValidExpression ''()'' = Inr False"
    "isValidExpression ''2 + # 3'' = Inr False"
    by (simp_all add: lexer_defs entry_defs)
  show ?thesis
    by (intro conjI allI impI;
        (rule total isValidExpression_eq ex | erule lex neg unbalanced noparse ok))
qed

theorem isValidExpression_is_total_and_decided_by_three_checks_witness:
  "tokenize ''2 + 3)'' = Inr [NumberTok 2, OperatorTok (CHR ''+''), NumberTok 3, RparenTok]
   \<and> parenDepth (take 4 [NumberTok 2, OperatorTok (CHR ''+''), NumberTok 3, RparenTok]) < 0
   \<and> isValidExpression ''2 + 3)'' = Inr False
   \<and> \<not> isBlank ''(+)''
   \<and> tokenize ''(+)'' = Inr [LparenTok, OperatorTok (CHR ''+''), RparenTok]
   \<and> parse [LparenTok, OperatorTok (CHR ''+''), RparenTok] = Inl (Error ''Unexpected token: )'')
   \<and> isValidExpression ''(+)'' = Inr False
   \<and> tokenize ''(5)'' = Inr [LparenTok, NumberTok 5, RparenTok]
   \<and> parenDepth [LparenTok, NumberTok 5, RparenTok] = 0
   \<and> parse [LparenTok, NumberTok 5, RparenTok] = Inr (NumberNode 5)
   \<and> isValidExpression ''(5)'' = Inr True"
proof -
  let ?ts = "[NumberTok 2, OperatorTok (CHR ''+''), NumberTok 3, RparenTok]"
  have tk: "tokenize ''2 + 3)'' = Inr ?ts" by (simp add: lexer_defs)
  have d: "parenDepth (take 4 ?ts) < 0" by (simp add: parenDepth_def)
  then have "\<exists>n \<le> length ?ts. parenDepth (take n ?ts) < 0"
    by (intro exI[of _ 4]) simp
  with tk have "tokenize ''2 + 3)'' = Inr ?ts \<and> (\<exists>n \<le> length ?ts. parenDepth (take n ?ts) < 0)"
    by simp
  then have r1: "isValidExpression ''2 + 3)'' = Inr False"
    by (rule isValidExpression_is_total_and_decided_by_three_checks
          [THEN conjunct2, THEN conjunct2, THEN conjunct2, THEN conjunct1, rule_format])
  let ?vs = "[LparenTok, OperatorTok (CHR ''+''), RparenTok]"
  have nb3: "\<not> isBlank ''(+)''" by (simp add: isBlank_def trim_def isWhitespace_def)
  have tk3: "tokenize ''(+)'' = Inr ?vs" by (simp add: lexer_defs)
  have p3: "parse ?vs = Inl (Error ''Unexpected token: )'')" by (simp add: parse_def)
  from nb3 tk3 p3 have "\<not> isBlank ''(+)'' \<and> tokenize ''(+)'' = Inr ?vs
      \<and> parse ?vs = Inl (Error ''Unexpected token: )'')" by simp
  then have r3: "isValidExpression ''(+)'' = Inr False"
    by (rule isValidExpression_is_total_and_decided_by_three_checks
          [THEN conjunct2, THEN conjunct2, THEN conjunct2, THEN conjunct2, THEN conjunct2,
          THEN conjunct1, rule_format])
  let ?us = "[LparenTok, NumberTok 5, RparenTok]"
  have tk2: "tokenize ''(5)'' = Inr ?us" by (simp add: lexer_defs)
  have d2: "parenDepth ?us = 0" by (simp add: parenDepth_def)
  have p2: "parse ?us = Inr (NumberNode 5)" by (simp add: parse_def)
  have pre: "\<forall>n \<le> length ?us. 0 \<le> parenDepth (take n ?us)"
  proof (intro allI impI)
    fix n assume "n \<le> length ?us"
    then have "n = 0 \<or> n = 1 \<or> n = 2 \<or> n = 3" by auto
    then show "0 \<le> parenDepth (take n ?us)"
      by (auto simp: parenDepth_def)
  qed
  from tk2 pre d2 p2 have "tokenize ''(5)'' = Inr ?us
      \<and> (\<forall>n \<le> length ?us. 0 \<le> parenDepth (take n ?us))
      \<and> parenDepth ?us = 0 \<and> parse ?us = Inr (NumberNode 5)" by simp
  then have r2: "isValidExpression ''(5)'' = Inr True"
    by (rule isValidExpression_is_total_and_decided_by_three_checks
          [THEN conjunct2, THEN conjunct2, THEN conjunct2, THEN conjunct2, THEN conjunct2,
          THEN conjunct2, THEN conjunct1, rule_format])
  show ?thesis using tk d r1 nb3 tk3 p3 r3 tk2 d2 p2 r2 by simp
qed

section \<open>Tokens left unread\<close>

text \<open>
  Claim C6 asks that input whose tokens are not all consumed by the parse be
  rejected by both entry points. \<open>parse\<close> drops the unread tokens and neither entry
  point looks at them: \<open>evaluate("2 + 3)")\<close> and \<open>evaluate("2 + 3) 4")\<close> return 5,
  \<open>evaluate("2 3")\<close> returns 2 and \<open>isValidExpression("2 3")\<close> is true.
\<close>

theorem trailing_tokens_are_not_rejected:
  "tokenize ''2 + 3)'' = Inr [NumberTok 2, OperatorTok (CHR ''+''), NumberTok 3, RparenTok]
   \<and> parseAddSub [NumberTok 2, OperatorTok (CHR ''+''), NumberTok 3, RparenTok]
       = Inr (BinaryNode (CHR ''+'') (NumberNode 2) (NumberNode 3), [RparenTok])
   \<and> evaluate ''2 + 3)'' = Inr 5
   \<and> evaluate ''2 + 3) 4'' = Inr 5
   \<and> tokenize ''2 3'' = Inr [NumberTok 2, NumberTok 3]
   \<and> parseAddSub [NumberTok 2, NumberTok 3] = Inr (NumberNode 2, [NumberTok 3])
   \<and> evaluate ''2 3'' = Inr 2
   \<and> isValidExpression ''2 3'' = Inr True"
  by (simp add: lexer_defs entry_defs)

section \<open>Validation does not evaluate\<close>

text \<open>
  Claim C10. \<open>isValidExpression\<close> returning true does not guarantee that \<open>evaluate\<close>
  succeeds: the input \<open>"5 / 0"\<close> lexes, balances and parses, so it is valid, while
  \<open>evaluate\<close> fails on it with the division-by-zero error, because validation never
  evaluates the tree.
\<close>

theorem valid_expression_may_fail_to_evaluate:
  "tokenize ''5 / 0'' = Inr [NumberTok 5, OperatorTok (CHR ''/''), NumberTok 0]
   \<and> parenLoop [NumberTok 5, OperatorTok (CHR ''/''), NumberTok 0] 0 = Some 0
   \<and> parse [NumberTok 5, OperatorTok (CHR ''/''), NumberTok 0]
       = Inr (BinaryNode (CHR ''/'') (NumberNode 5) (NumberNode 0))
   \<and> isValidExpression ''5 / 0'' = Inr True
   \<and> evaluateNode (BinaryNode (CHR ''/'') (NumberNode 5) (NumberNode 0))
       = Inl (Error ''Division by zero'')
   \<and> evaluate ''5 / 0'' = Inl (Error ''Calculation error: Division by zero'')"
  by (simp add: lexer_defs entry_defs)

end
